theory Spec2Isabelle
  imports Main "HOL-Library.Word"
begin

section \<open>argz: a shallow embedding of \<^verbatim>\<open>include/argz/argz.hpp\<close>\<close>

subsection \<open>Errors and outcomes\<close>

text \<open>
  The exceptions the code can raise, and the two reads that C++ leaves undefined.
  \<^item> \<open>ExpectedFlagPrefix\<close> is \<^verbatim>\<open>std::runtime_error("Expected '-'")\<close>;
  \<^item> \<open>UnknownAlias\<close> is \<^verbatim>\<open>std::runtime_error("Invalid alias flag '-' for: ")\<close>;
  \<^item> \<open>MalformedNumber\<close> is the \<^verbatim>\<open>std::invalid_argument\<close> of \<^verbatim>\<open>std::stol\<close> and
    \<^verbatim>\<open>std::stod\<close> (no conversion could be performed);
  \<^item> \<open>NumberOutOfRange\<close> is their \<^verbatim>\<open>std::out_of_range\<close>;
  \<^item> \<open>BadVariantAccess\<close> is the \<^verbatim>\<open>std::bad_variant_access\<close> of \<^verbatim>\<open>std::get\<close>;
  \<^item> \<open>OutOfBoundsRead\<close> is a read of \<^verbatim>\<open>argv[i]\<close> past the end of the array and
    \<open>NullDeref\<close> is \<^verbatim>\<open>*flag\<close> on a null pointer: undefined behaviour, made a
    visible result here.
\<close>

datatype error =
    ExpectedFlagPrefix
  | UnknownAlias
  | MalformedNumber
  | NumberOutOfRange
  | BadVariantAccess
  | OutOfBoundsRead
  | NullDeref

text \<open>
  A call either returns or throws. Both carry the state at that moment, since what the
  code has written through its references before an exception stays written.
\<close>

datatype 's outcome = Ok 's | Throw error 's

subsection \<open>Bindings: the variant \<^verbatim>\<open>var\<close>\<close>

text \<open>
  \<^verbatim>\<open>var\<close> is a \<^verbatim>\<open>std::variant\<close> of fifteen reference wrappers: \<^verbatim>\<open>ref<bool>\<close>,
  \<^verbatim>\<open>ref<T>\<close> for the seven types \<open>T\<close> below, and \<^verbatim>\<open>ref_opt<T>\<close>
  (\<^verbatim>\<open>ref<std::optional<T>>\<close>) for the same seven. A reference is an address into the
  caller's storage.
\<close>

type_synonym addr = nat

datatype prim = TInt32 | TUInt32 | TInt64 | TUInt64 | TDouble | TString | TPath

datatype var = RefBool addr | Ref prim addr | RefOpt prim addr

text \<open>
  The objects the references point to. The type \<open>'d\<close> stands for \<^verbatim>\<open>double\<close>, whose
  arithmetic is not modelled. A \<^verbatim>\<open>std::filesystem::path\<close> is the string it was built
  from. An integer is the word of its bits: \<open>sint\<close> reads an \<open>I32\<close> or \<open>I64\<close>,
  \<open>unat\<close> a \<open>U32\<close> or \<open>U64\<close>.
\<close>

datatype 'd pval =
    I32 "32 word"
  | U32 "32 word"
  | I64 "64 word"
  | U64 "64 word"
  | Dbl 'd
  | Str string
  | Path string

datatype 'd val = VBool bool | VPlain "'d pval" | VOpt "'d pval option"

type_synonym 'd store = "addr \<Rightarrow> 'd val"

subsection \<open>The standard library functions the code calls\<close>

text \<open>
  What the code needs of \<^verbatim>\<open>double\<close>: the value of \<^verbatim>\<open>double{}\<close>, the numeric part of
  \<^verbatim>\<open>std::stod\<close> (the value, or \<open>NumberOutOfRange\<close>) on a string that starts with a
  number, and \<^verbatim>\<open>std::to_string(double)\<close>. They are parameters of the model.
\<close>

record 'd double_ops =
  zero_double :: 'd
  stod_value :: "string \<Rightarrow> error + 'd"
  to_string_double :: "'d \<Rightarrow> string"

text \<open>\<^verbatim>\<open>isspace\<close> and \<^verbatim>\<open>isdigit\<close> in the C locale.\<close>

definition isspace :: "char \<Rightarrow> bool" where
  "isspace c \<longleftrightarrow> c = CHR 0x20 \<or> c = CHR 0x09 \<or> c = CHR 0x0A \<or> c = CHR 0x0B \<or> c = CHR 0x0C \<or> c = CHR 0x0D"

definition isdigit :: "char \<Rightarrow> bool" where
  "isdigit c \<longleftrightarrow> (48::nat) \<le> of_char c \<and> of_char c \<le> (57::nat)"

definition digit_val :: "char \<Rightarrow> nat" where
  "digit_val c = of_char c - 48"

text \<open>The optional sign that \<^verbatim>\<open>strtol\<close> and \<^verbatim>\<open>strtod\<close> accept: is it a minus, and the rest.\<close>

fun strip_sign :: "string \<Rightarrow> bool \<times> string" where
  "strip_sign [] = (False, [])"
| "strip_sign (c # r) =
     (if c = CHR ''-'' then (True, r) else if c = CHR ''+'' then (False, r) else (False, c # r))"

definition decimal_value :: "string \<Rightarrow> nat" where
  "decimal_value ds = foldl (\<lambda>a c. 10 * a + digit_val c) 0 ds"

text \<open>
  \<^verbatim>\<open>std::stol(str)\<close> with its default base 10, for a 64-bit \<^verbatim>\<open>long\<close>: white space is
  skipped, an optional sign is read, then the longest run of decimal digits; what follows
  is ignored. No digit at all is \<^verbatim>\<open>std::invalid_argument\<close>, a value outside \<^verbatim>\<open>long\<close>
  is \<^verbatim>\<open>std::out_of_range\<close>.
\<close>

definition stol :: "string \<Rightarrow> error + int" where
  "stol s =
     (let (neg, r) = strip_sign (dropWhile isspace s);
          ds = takeWhile isdigit r
      in if ds = [] then Inl MalformedNumber
         else let n = int (decimal_value ds);
                  v = (if neg then - n else n)
              in if v < - (2 ^ 63) \<or> 2 ^ 63 \<le> v then Inl NumberOutOfRange else Inr v)"

text \<open>
  \<^verbatim>\<open>std::stod(str)\<close>: after white space and an optional sign, \<^verbatim>\<open>strtod\<close> converts
  something exactly when the text goes on with a digit, with a point and a digit, or with
  \<^verbatim>\<open>inf\<close> or \<^verbatim>\<open>nan\<close> in any case (a hexadecimal number starts with the digit 0).
  Otherwise \<^verbatim>\<open>std::stod\<close> throws \<^verbatim>\<open>std::invalid_argument\<close>.
\<close>

definition lower :: "char \<Rightarrow> char" where
  "lower c = (if (65::nat) \<le> of_char c \<and> of_char c \<le> (90::nat) then char_of (of_char c + (32::nat)) else c)"

definition starts_double :: "string \<Rightarrow> bool" where
  "starts_double s =
     (let r = snd (strip_sign (dropWhile isspace s))
      in case r of
           [] \<Rightarrow> False
         | c # t \<Rightarrow>
             isdigit c
             \<or> (c = CHR ''.'' \<and> (case t of [] \<Rightarrow> False | d # _ \<Rightarrow> isdigit d))
             \<or> map lower (take 3 r) = ''inf''
             \<or> map lower (take 3 r) = ''nan'')"

definition stod :: "'d double_ops \<Rightarrow> string \<Rightarrow> error + 'd" where
  "stod L s = (if starts_double s then stod_value L s else Inl MalformedNumber)"

subsection \<open>\<^verbatim>\<open>detail::parse\<close>: coercing one token into a binding\<close>

text \<open>\<^verbatim>\<open>T{}\<close>, the value of the temporary in the optional branch.\<close>

fun zero_of :: "'d double_ops \<Rightarrow> prim \<Rightarrow> 'd pval" where
  "zero_of L TInt32 = I32 0"
| "zero_of L TUInt32 = U32 0"
| "zero_of L TInt64 = I64 0"
| "zero_of L TUInt64 = U64 0"
| "zero_of L TDouble = Dbl (zero_double L)"
| "zero_of L TString = Str []"
| "zero_of L TPath = Path []"

text \<open>
  \<^verbatim>\<open>parse(const char* const c, var& v)\<close>. The token \<open>c\<close> is a pointer: \<open>None\<close> is the
  null pointer, on which the function does nothing. The equations follow the lambdas of
  the visitor in their order; the last, generic lambda is instantiated at the four
  integer types, where \<^verbatim>\<open>static_cast\<close> from \<^verbatim>\<open>long\<close> keeps the low bits.

  In the optional branch the temporary \<^verbatim>\<open>temp\<close> lives in a frame of its own (address 0
  of a fresh store), \<^verbatim>\<open>temp_var\<close> refers to it, the function calls itself on
  \<^verbatim>\<open>temp_var\<close>, and \<^verbatim>\<open>emplace\<close> copies what the call left in \<^verbatim>\<open>temp\<close>. An
  exception of the inner call leaves the function before \<^verbatim>\<open>emplace\<close>.
\<close>

function detail_parse :: "'d double_ops \<Rightarrow> string option \<Rightarrow> var \<Rightarrow> 'd store \<Rightarrow> 'd store outcome" where
  "detail_parse L None v m = Ok m"
| "detail_parse L (Some str) (Ref TString a) m = Ok (m(a := VPlain (Str str)))"
| "detail_parse L (Some str) (Ref TPath a) m = Ok (m(a := VPlain (Path str)))"
| "detail_parse L (Some str) (RefBool a) m = Ok (m(a := VBool (if str = ''true'' then True else False)))"
| "detail_parse L (Some str) (Ref TDouble a) m =
     (case stod L str of
        Inl e \<Rightarrow> Throw e m
      | Inr d \<Rightarrow> Ok (m(a := VPlain (Dbl d))))"
| "detail_parse L (Some str) (RefOpt T a) m =
     (let temp = zero_of L T;
          frame = (\<lambda>_. VPlain temp);
          temp_var = Ref T 0
      in case detail_parse L (Some str) temp_var frame of
           Throw e _ \<Rightarrow> Throw e m
         | Ok frame' \<Rightarrow>
             (case frame' 0 of
                VPlain x \<Rightarrow> Ok (m(a := VOpt (Some x)))
              | _ \<Rightarrow> Throw BadVariantAccess m))"
| "detail_parse L (Some str) (Ref TInt32 a) m =
     (case stol str of
        Inl e \<Rightarrow> Throw e m
      | Inr n \<Rightarrow> Ok (m(a := VPlain (I32 (word_of_int n)))))"
| "detail_parse L (Some str) (Ref TUInt32 a) m =
     (case stol str of
        Inl e \<Rightarrow> Throw e m
      | Inr n \<Rightarrow> Ok (m(a := VPlain (U32 (word_of_int n)))))"
| "detail_parse L (Some str) (Ref TInt64 a) m =
     (case stol str of
        Inl e \<Rightarrow> Throw e m
      | Inr n \<Rightarrow> Ok (m(a := VPlain (I64 (word_of_int n)))))"
| "detail_parse L (Some str) (Ref TUInt64 a) m =
     (case stol str of
        Inl e \<Rightarrow> Throw e m
      | Inr n \<Rightarrow> Ok (m(a := VPlain (U64 (word_of_int n)))))"
  by pat_completeness auto
termination
  by (relation "measure (\<lambda>(L, c, v, m). case v of RefOpt _ _ \<Rightarrow> 1 | _ \<Rightarrow> 0)") auto

subsection \<open>The option table and the run context\<close>

text \<open>
  \<^verbatim>\<open>ids_t\<close>, \<^verbatim>\<open>arg_t\<close>, \<^verbatim>\<open>options\<close> and \<^verbatim>\<open>about\<close>. The fields \<^verbatim>\<open>id\<close>,
  \<^verbatim>\<open>alias\<close>, \<^verbatim>\<open>value\<close> and \<^verbatim>\<open>help\<close> are \<open>id_name\<close>, \<open>alias_char\<close>, \<open>value_ref\<close> and
  \<open>help_text\<close> here.
  An option without alias has the alias \<^verbatim>\<open>'\0'\<close>.
\<close>

record ids_t =
  id_name :: string
  alias_char :: char

record arg_t =
  ids :: ids_t
  value_ref :: var
  help_text :: string

type_synonym options = "arg_t list"

record about =
  description :: string
  version :: string
  print_help_when_no_options :: bool
  printed_help :: bool
  printed_version :: bool

text \<open>
  What a call of \<^verbatim>\<open>parse\<close> can change: the run context, the caller's storage behind the
  references, and the text written to \<^verbatim>\<open>std::cout\<close>.
\<close>

record 'd world =
  ctx :: about
  mem :: "'d store"
  cout :: string

subsection \<open>\<^verbatim>\<open>detail::to_string\<close> and \<^verbatim>\<open>help\<close>\<close>

text \<open>\<^verbatim>\<open>std::to_string\<close> on the integer types: decimal digits, with a minus sign.\<close>

fun dec_nat :: "nat \<Rightarrow> string" where
  "dec_nat n = (if n < 10 then [char_of (48 + n)] else dec_nat (n div 10) @ [char_of (48 + n mod 10)])"

declare dec_nat.simps [simp del]

definition to_string_int :: "int \<Rightarrow> string" where
  "to_string_int k = (if k < 0 then CHR ''-'' # dec_nat (nat (- k)) else dec_nat (nat k))"

fun to_string_plain :: "'d double_ops \<Rightarrow> 'd pval \<Rightarrow> string" where
  "to_string_plain L (Str x) = x"
| "to_string_plain L (Path x) = x"
| "to_string_plain L (I32 x) = to_string_int (sint x)"
| "to_string_plain L (U32 x) = to_string_int (uint x)"
| "to_string_plain L (I64 x) = to_string_int (sint x)"
| "to_string_plain L (U64 x) = to_string_int (uint x)"
| "to_string_plain L (Dbl x) = to_string_double L x"

text \<open>
  \<^verbatim>\<open>detail::to_string\<close> visits the variant. The alternative fixes the type of the object
  referred to, so the function is given here on that object: a string or path as it is, an
  empty optional as the empty string, a present optional as its value, and everything
  else through \<^verbatim>\<open>std::to_string\<close>, where a \<^verbatim>\<open>bool\<close> is promoted to \<^verbatim>\<open>int\<close>.
\<close>

fun to_string :: "'d double_ops \<Rightarrow> 'd val \<Rightarrow> string" where
  "to_string L (VPlain x) = to_string_plain L x"
| "to_string L (VOpt None) = []"
| "to_string L (VOpt (Some x)) = to_string_plain L x"
| "to_string L (VBool b) = to_string_int (if b then 1 else 0)"

fun target :: "var \<Rightarrow> addr" where
  "target (RefBool a) = a"
| "target (Ref T a) = a"
| "target (RefOpt T a) = a"

definition nl :: string where
  "nl = [CHR 0x0A]"

text \<open>
  One line of the help text, the body of the loop in \<^verbatim>\<open>help\<close>; then \<^verbatim>\<open>help\<close>
  itself, under the name \<open>print_help\<close>.
\<close>

definition help_line :: "'d double_ops \<Rightarrow> 'd store \<Rightarrow> arg_t \<Rightarrow> string" where
  "help_line L m x =
     (if alias_char (ids x) \<noteq> CHR 0x00
      then ''-'' @ [alias_char (ids x)] @ '', --'' @ id_name (ids x)
      else (if length (id_name (ids x)) = 1 then ''-'' else ''--'') @ id_name (ids x))
     @ ''    '' @ help_text x
     @ (if to_string L (m (target (value_ref x))) = [] then nl
        else '', default: '' @ to_string L (m (target (value_ref x))) @ nl)"

definition print_help :: "'d double_ops \<Rightarrow> 'd world \<Rightarrow> options \<Rightarrow> 'd world" where
  "print_help L w opts =
     w\<lparr>ctx := (ctx w)\<lparr>printed_help := True\<rparr>,
       cout := cout w
         @ description (ctx w) @ nl
         @ ''Version: '' @ version (ctx w) @ nl
         @ nl @ ''-h, --help       write help to console'' @ nl
         @ ''-v, --version    write the version to console'' @ nl
         @ concat (map (help_line L (mem w)) opts)
         @ nl\<rparr>"

subsection \<open>\<^verbatim>\<open>parse\<close>: the scanner\<close>

text \<open>
  \<^verbatim>\<open>argv\<close> is a pointer to an array of pointers to C strings. The array is the list of
  its cells, \<open>None\<close> a null pointer; \<^verbatim>\<open>argc\<close> is passed beside it and the code never
  compares the two. The \<^verbatim>\<open>argv\<close> of \<^verbatim>\<open>main\<close> has \<^verbatim>\<open>argc\<close> strings and then a null
  pointer. A read past the last cell is \<open>None\<close> here and \<open>OutOfBoundsRead\<close> in the
  functions below. The counter type \<^verbatim>\<open>int_t\<close> is \<open>int\<close>.
\<close>

type_synonym argv_t = "string option list"

definition argv_at :: "argv_t \<Rightarrow> int \<Rightarrow> string option option" where
  "argv_at argv i = (if 0 \<le> i \<and> i < int (length argv) then Some (argv ! nat i) else None)"

text \<open>The lambda \<^verbatim>\<open>get_id\<close>: the id of the first option with the alias, or the empty string.\<close>

fun get_id :: "options \<Rightarrow> char \<Rightarrow> string" where
  "get_id [] a = []"
| "get_id (x # xs) a = (if alias_char (ids x) = a then id_name (ids x) else get_id xs a)"

text \<open>
  \<^verbatim>\<open>++flag; if (*flag == '-') ++flag;\<close> on a token that starts with a dash: what is left
  of the token.
\<close>

definition strip_dashes :: "string \<Rightarrow> string" where
  "strip_dashes tok =
     (case tl tok of
        [] \<Rightarrow> []
      | c # r \<Rightarrow> if c = CHR ''-'' then r else c # r)"

text \<open>
  The inner loop over the table, for the identifier \<open>str\<close>. It runs over every option
  and has no \<^verbatim>\<open>break\<close>: each option whose id equals \<open>str\<close> is served, a boolean one by
  setting it, any other by \<^verbatim>\<open>detail::parse(argv[++i], v)\<close>. The result is the index
  \<open>i\<close> and the storage.
\<close>

fun bind_opts ::
  "'d double_ops \<Rightarrow> argv_t \<Rightarrow> string \<Rightarrow> options \<Rightarrow> int \<Rightarrow> 'd store \<Rightarrow> (int \<times> 'd store) outcome" where
  "bind_opts L argv str [] i m = Ok (i, m)"
| "bind_opts L argv str (x # xs) i m =
     (if id_name (ids x) = str then
        (case value_ref x of
           RefBool a \<Rightarrow> bind_opts L argv str xs i (m(a := VBool True))
         | v \<Rightarrow>
             (case argv_at argv (i + 1) of
                None \<Rightarrow> Throw OutOfBoundsRead (i + 1, m)
              | Some c \<Rightarrow>
                  (case detail_parse L c v m of
                     Throw e m' \<Rightarrow> Throw e (i + 1, m')
                   | Ok m' \<Rightarrow> bind_opts L argv str xs (i + 1) m')))
      else bind_opts L argv str xs i m)"

text \<open>
  How one run of the body of the scan loop ends: at its end or at a \<^verbatim>\<open>continue\<close>, with
  the index as the body left it (the loop then adds one); at the \<^verbatim>\<open>break\<close>; or in an
  exception.
\<close>

datatype 's flow = Continue int 's | Break 's | Raised error 's

text \<open>The body of the scan loop at index \<open>i\<close>.\<close>

definition iteration :: "'d double_ops \<Rightarrow> options \<Rightarrow> argv_t \<Rightarrow> int \<Rightarrow> 'd world \<Rightarrow> 'd world flow" where
  "iteration L opts argv i w =
     (case argv_at argv i of
        None \<Rightarrow> Raised OutOfBoundsRead w
      | Some None \<Rightarrow> Raised NullDeref w
      | Some (Some tok) \<Rightarrow>
          if (case tok of [] \<Rightarrow> True | c # _ \<Rightarrow> c \<noteq> CHR ''-'') then Raised ExpectedFlagPrefix w
          else
            let str = strip_dashes tok in
            if str = ''h'' \<or> str = ''help'' then Continue i (print_help L w opts)
            else if str = ''v'' \<or> str = ''version'' then
              Continue i (w\<lparr>cout := cout w @ ''Version: '' @ version (ctx w) @ nl,
                            ctx := (ctx w)\<lparr>printed_version := True\<rparr>\<rparr>)
            else if length str = 1 \<and> get_id opts (hd str) = [] then Raised UnknownAlias w
            else
              let str = (if length str = 1 then get_id opts (hd str) else str) in
              if str = [] then Break w
              else
                (case bind_opts L argv str opts i (mem w) of
                   Throw e (i', m') \<Rightarrow> Raised e (w\<lparr>mem := m'\<rparr>)
                 | Ok (i', m') \<Rightarrow> Continue i' (w\<lparr>mem := m'\<rparr>)))"

text \<open>
  The scan loop \<^verbatim>\<open>for (int_t i = 1; i < argc; ++i)\<close>, from the index \<open>i\<close> on. It
  terminates because the body never lowers the index.
\<close>

function scan ::
  "'d double_ops \<Rightarrow> options \<Rightarrow> int \<Rightarrow> argv_t \<Rightarrow> int \<Rightarrow> 'd world \<Rightarrow> 'd world outcome" where
  "scan L opts argc argv i w =
     (if i < argc then
        (case iteration L opts argv i w of
           Raised e w' \<Rightarrow> Throw e w'
         | Break w' \<Rightarrow> Ok w'
         | Continue i' w' \<Rightarrow> scan L opts argc argv (i' + 1) w')
      else Ok w)"
  by pat_completeness auto
termination
proof (relation "measure (\<lambda>(L, opts, argc, argv, i, w). nat (argc - i))")
  show "wf (measure (\<lambda>(L, opts, argc, argv, i, w). nat (argc - i)))"
    by simp
next
  fix L opts argc argv i w i' w'
  assume lt: "i < argc" and it: "iteration L opts argv i w = Continue i' w'"
  have mono: "bind_opts L argv str xs j m = Ok (j', m') \<Longrightarrow> j \<le> j'" for str xs j m j' m'
  proof (induction xs arbitrary: j m)
    case Nil
    then show ?case by simp
  next
    case (Cons x xs)
    then show ?case
      by (fastforce split: if_splits var.splits option.splits outcome.splits)
  qed
  from it have "i \<le> i'"
    unfolding iteration_def Let_def
    by (auto split: option.splits if_splits outcome.splits prod.splits dest: mono)
  with lt show "((L, opts, argc, argv, i' + 1, w'), (L, opts, argc, argv, i, w))
      \<in> measure (\<lambda>(L, opts, argc, argv, i, w). nat (argc - i))"
    by simp
qed

declare scan.simps [simp del]

text \<open>\<^verbatim>\<open>parse(about, opts, argc, argv)\<close>.\<close>

definition parse ::
  "'d double_ops \<Rightarrow> options \<Rightarrow> int \<Rightarrow> argv_t \<Rightarrow> 'd world \<Rightarrow> 'd world outcome" where
  "parse L opts argc argv w =
     (if argc = 1 then
        (if print_help_when_no_options (ctx w) then Ok (print_help L w opts) else Ok w)
      else scan L opts argc argv 1 w)"

subsection \<open>Runs of the scan loop, and the notions the properties use\<close>

text \<open>
  \<open>reaches L opts argc argv w0 n i w\<close>: started by \<^verbatim>\<open>parse\<close> in the state \<open>w0\<close>,
  the scan loop has completed \<open>n\<close> runs of its body and now stands at its head with
  the index \<open>i\<close> and the state \<open>w\<close>.
\<close>

inductive reaches ::
  "'d double_ops \<Rightarrow> options \<Rightarrow> int \<Rightarrow> argv_t \<Rightarrow> 'd world \<Rightarrow> nat \<Rightarrow> int \<Rightarrow> 'd world \<Rightarrow> bool"
  for L opts argc argv w0 where
  start: "reaches L opts argc argv w0 0 1 w0"
| step: "reaches L opts argc argv w0 n i w \<Longrightarrow> i < argc \<Longrightarrow>
         iteration L opts argv i w = Continue i' w' \<Longrightarrow>
         reaches L opts argc argv w0 (Suc n) (i' + 1) w'"

text \<open>The array that \<^verbatim>\<open>main\<close> receives for the tokens \<open>toks\<close>: the strings, then a null pointer.\<close>

definition main_argv :: "string list \<Rightarrow> argv_t" where
  "main_argv toks = map Some toks @ [None]"

text \<open>
  A token in the form the scan loop demands: it starts with a dash. The four texts the
  loop reserves for help and version.
\<close>

definition is_flag :: "string \<Rightarrow> bool" where
  "is_flag tok = (case tok of [] \<Rightarrow> False | c # _ \<Rightarrow> c = CHR ''-'')"

definition reserved :: "string \<Rightarrow> bool" where
  "reserved str \<longleftrightarrow> str = ''h'' \<or> str = ''help'' \<or> str = ''v'' \<or> str = ''version''"

text \<open>
  The identifier the scan loop looks up in the table for a flag token: the text of the
  token, or the id that \<^verbatim>\<open>get_id\<close> gives when the text is one character.
\<close>

definition resolve :: "options \<Rightarrow> string \<Rightarrow> string" where
  "resolve opts tok =
     (if length (strip_dashes tok) = 1 then get_id opts (hd (strip_dashes tok)) else strip_dashes tok)"

text \<open>The bindings other than \<^verbatim>\<open>ref<bool>\<close>: those that take a value token.\<close>

fun takes_value :: "var \<Rightarrow> bool" where
  "takes_value (RefBool a) = False"
| "takes_value (Ref T a) = True"
| "takes_value (RefOpt T a) = True"




text \<open>
  The state in which a call ends, returning or throwing, and the state in which a run of
  the loop body ends.
\<close>

fun outcome_state :: "'s outcome \<Rightarrow> 's" where
  "outcome_state (Ok s) = s"
| "outcome_state (Throw e s) = s"

fun state_of :: "'s flow \<Rightarrow> 's" where
  "state_of (Continue i w) = w"
| "state_of (Break w) = w"
| "state_of (Raised e w) = w"

text \<open>
  The scan loop stops at a head: the index is not below \<^verbatim>\<open>argc\<close>, or the body ends in
  the \<^verbatim>\<open>break\<close> or in an exception.
\<close>

definition stops :: "'d double_ops \<Rightarrow> options \<Rightarrow> int \<Rightarrow> argv_t \<Rightarrow> int \<Rightarrow> 'd world \<Rightarrow> bool" where
  "stops L opts argc argv i w =
     (if i < argc then (case iteration L opts argv i w of Continue i' w' \<Rightarrow> False | _ \<Rightarrow> True)
      else True)"

text \<open>
  A token that asks for help, and the relation between two states of one call in which no
  help was written in between: the help flag and the version text are the same, and the
  output has grown by version lines only.
\<close>

definition asks_help :: "string \<Rightarrow> bool" where
  "asks_help tok \<longleftrightarrow> is_flag tok \<and> (strip_dashes tok = ''h'' \<or> strip_dashes tok = ''help'')"

definition no_help_between :: "'d world \<Rightarrow> 'd world \<Rightarrow> bool" where
  "no_help_between w w' \<longleftrightarrow>
     printed_help (ctx w') = printed_help (ctx w) \<and> version (ctx w') = version (ctx w)
     \<and> (\<exists>k. cout w' = cout w @ concat (replicate k (''Version: '' @ version (ctx w) @ nl)))"

subsection \<open>A small table for the examples\<close>

text \<open>
  Three options: a boolean \<^verbatim>\<open>--verbose\<close> at address 0, a string \<^verbatim>\<open>--name\<close> (alias
  \<^verbatim>\<open>n\<close>) at address 1 and an optional 32-bit integer \<^verbatim>\<open>--count\<close> (alias \<^verbatim>\<open>c\<close>) at
  address 2. No example parses a \<^verbatim>\<open>double\<close>, so the type of doubles is \<open>unit\<close> there.
\<close>

definition demo_ops :: "unit double_ops" where
  "demo_ops = \<lparr>zero_double = (), stod_value = (\<lambda>_. Inr ()), to_string_double = (\<lambda>_. ''0.000000'')\<rparr>"

definition demo_opts :: options where
  "demo_opts =
     [\<lparr>ids = \<lparr>id_name = ''verbose'', alias_char = CHR 0x00\<rparr>, value_ref = RefBool 0, help_text = ''talk''\<rparr>,
      \<lparr>ids = \<lparr>id_name = ''name'', alias_char = CHR ''n''\<rparr>, value_ref = Ref TString 1, help_text = ''a name''\<rparr>,
      \<lparr>ids = \<lparr>id_name = ''count'', alias_char = CHR ''c''\<rparr>, value_ref = RefOpt TInt32 2, help_text = ''a count''\<rparr>]"

definition demo_mem :: "unit store" where
  "demo_mem = (\<lambda>_. VBool False)(1 := VPlain (Str []), 2 := VOpt None)"

definition demo_world :: "unit world" where
  "demo_world =
     \<lparr>ctx = \<lparr>description = ''demo'', version = ''1.0'', print_help_when_no_options = False,
              printed_help = False, printed_version = False\<rparr>,
      mem = demo_mem, cout = []\<rparr>"

text \<open>Two options that share the long id \<^verbatim>\<open>out\<close>, strings at the addresses 1 and 3.\<close>

definition twin_opts :: options where
  "twin_opts =
     [\<lparr>ids = \<lparr>id_name = ''out'', alias_char = CHR 0x00\<rparr>, value_ref = Ref TString 1, help_text = ''first''\<rparr>,
      \<lparr>ids = \<lparr>id_name = ''out'', alias_char = CHR 0x00\<rparr>, value_ref = Ref TString 3, help_text = ''second''\<rparr>]"

section \<open>Properties\<close>

subsection \<open>The scan loop and its runs\<close>

lemma bind_opts_index:
  "bind_opts L argv str opts i m = Ok (i', m') \<Longrightarrow> i \<le> i'"
proof (induction opts arbitrary: i m)
  case Nil
  then show ?case by simp
next
  case (Cons x xs)
  then show ?case
    by (fastforce split: if_splits var.splits option.splits outcome.splits)
qed

lemma iteration_index:
  "iteration L opts argv i w = Continue i' w' \<Longrightarrow> i \<le> i'"
  unfolding iteration_def Let_def
  by (auto split: option.splits if_splits outcome.splits prod.splits dest: bind_opts_index)

lemma reaches_scan:
  "reaches L opts argc argv w0 n i w \<Longrightarrow> scan L opts argc argv 1 w0 = scan L opts argc argv i w"
proof (induction rule: reaches.induct)
  case start
  show ?case by simp
next
  case (step n i w i' w')
  have "scan L opts argc argv i w = scan L opts argc argv (i' + 1) w'"
    using step.hyps(2,3) by (subst scan.simps) simp
  with step.IH show ?case by simp
qed

lemma reaches_index: "reaches L opts argc argv w0 n i w \<Longrightarrow> int n < i"
proof (induction rule: reaches.induct)
  case start
  show ?case by simp
next
  case (step n i w i' w')
  from step.hyps(3) have "i \<le> i'" by (rule iteration_index)
  with step.IH show ?case by simp
qed

lemma reaches_parse:
  assumes "reaches L opts argc argv w0 n i w" and "i < argc"
  shows "parse L opts argc argv w0 = scan L opts argc argv i w"
proof -
  from assms(1) have "1 \<le> i" using reaches_index by fastforce
  with assms(2) have "argc \<noteq> 1" by simp
  then show ?thesis using reaches_scan [OF assms(1)] by (simp add: parse_def)
qed

lemma get_id_none: "\<forall>x\<in>set opts. alias_char (ids x) \<noteq> c \<Longrightarrow> get_id opts c = []"
  by (induction opts) auto

lemma bind_opts_no_match:
  "\<forall>x\<in>set opts. id_name (ids x) \<noteq> str \<Longrightarrow> bind_opts L argv str opts i m = Ok (i, m)"
  by (induction opts) auto

lemma iteration_break:
  assumes "argv_at argv i = Some (Some tok)" "is_flag tok" "strip_dashes tok = []"
  shows "iteration L opts argv i w = Break w"
  using assms by (simp add: iteration_def is_flag_def split: list.splits)

lemma iteration_unknown_alias:
  assumes "argv_at argv i = Some (Some tok)" "is_flag tok" "strip_dashes tok = [c]"
    "c \<noteq> CHR ''h''" "c \<noteq> CHR ''v''" "get_id opts c = []"
  shows "iteration L opts argv i w = Raised UnknownAlias w"
  using assms by (simp add: iteration_def is_flag_def split: list.splits)

lemma iteration_unknown_long:
  assumes "argv_at argv i = Some (Some tok)" "is_flag tok" "\<not> reserved (strip_dashes tok)"
    "length (strip_dashes tok) \<noteq> 1" "strip_dashes tok \<noteq> []"
    "\<forall>x\<in>set opts. id_name (ids x) \<noteq> strip_dashes tok"
  shows "iteration L opts argv i w = Continue i w"
  using assms by (simp add: iteration_def is_flag_def reserved_def bind_opts_no_match split: list.splits)

lemma iteration_lookup:
  assumes "argv_at argv i = Some (Some tok)" "is_flag tok" "\<not> reserved (strip_dashes tok)"
    "resolve opts tok \<noteq> []"
  shows "iteration L opts argv i w =
    (case bind_opts L argv (resolve opts tok) opts i (mem w) of
       Throw e (i', m') \<Rightarrow> Raised e (w\<lparr>mem := m'\<rparr>)
     | Ok (i', m') \<Rightarrow> Continue i' (w\<lparr>mem := m'\<rparr>))"
  using assms by (auto simp add: iteration_def is_flag_def reserved_def resolve_def split: list.splits)

lemma bind_opts_skip:
  "\<forall>y\<in>set pre. id_name (ids y) \<noteq> str \<Longrightarrow>
   bind_opts L argv str (pre @ xs) i m = bind_opts L argv str xs i m"
  by (induction pre) auto

lemma bind_opts_value:
  assumes "id_name (ids x) = str" "takes_value (value_ref x)"
  shows "bind_opts L argv str (x # xs) i m =
    (case argv_at argv (i + 1) of
       None \<Rightarrow> Throw OutOfBoundsRead (i + 1, m)
     | Some c \<Rightarrow>
         (case detail_parse L c (value_ref x) m of
            Throw e m' \<Rightarrow> Throw e (i + 1, m')
          | Ok m' \<Rightarrow> bind_opts L argv str xs (i + 1) m'))"
  using assms by (cases "value_ref x") (simp_all split: option.splits)

lemma scan_past: "argc \<le> i \<Longrightarrow> scan L opts argc argv i w = Ok w"
  by (subst scan.simps) simp

text \<open>
  C3. When the scan loop stands at a token that starts with a dash and has no text left
  after its dashes (\<^verbatim>\<open>-\<close> or \<^verbatim>\<open>--\<close>: no alias to resolve, and the text is
  empty), the body of the loop ends in the \<^verbatim>\<open>break\<close>: no exception is raised, and
  \<^verbatim>\<open>parse\<close> returns with the state as it was when the token was reached, so no
  later token is processed.
\<close>

theorem C3_empty_flag_breaks:
  assumes "reaches L opts argc argv w0 n i w" and "i < argc"
    and "argv_at argv i = Some (Some tok)" and "is_flag tok" and "strip_dashes tok = []"
  shows "iteration L opts argv i w = Break w \<and> parse L opts argc argv w0 = Ok w"
proof -
  have b: "iteration L opts argv i w = Break w"
    using assms(3,4,5) by (rule iteration_break)
  have "scan L opts argc argv i w = Ok w"
    using assms(2) b by (subst scan.simps) simp
  with reaches_parse [OF assms(1,2)] b show ?thesis by simp
qed

theorem C3_witness:
  "parse demo_ops demo_opts 4 (main_argv [''prog'', ''--verbose'', ''--'', ''--name'']) demo_world
     = Ok (demo_world\<lparr>mem := demo_mem(0 := VBool True)\<rparr>)"
proof -
  let ?argv = "main_argv [''prog'', ''--verbose'', ''--'', ''--name'']"
  let ?w = "demo_world\<lparr>mem := demo_mem(0 := VBool True)\<rparr>"
  have it: "iteration demo_ops demo_opts ?argv 1 demo_world = Continue 1 ?w"
    by (simp add: iteration_def main_argv_def argv_at_def strip_dashes_def demo_opts_def demo_world_def)
  have r: "reaches demo_ops demo_opts 4 ?argv demo_world (Suc 0) (1 + 1) ?w"
    by (rule reaches.step [OF reaches.start _ it]) simp
  have "argv_at ?argv (1 + 1) = Some (Some ''--'')"
    by (simp add: main_argv_def argv_at_def)
  then show ?thesis
    using C3_empty_flag_breaks [OF r _ _, of "''--''"]
    by (simp add: is_flag_def strip_dashes_def)
qed

lemma get_id_find:
  "get_id opts a = (case find (\<lambda>x. alias_char (ids x) = a) opts of None \<Rightarrow> [] | Some x \<Rightarrow> id_name (ids x))"
  by (induction opts) auto

text \<open>
  C7. When the scan loop stands at a token that starts with a dash and whose text after
  the dashes is one character, not \<^verbatim>\<open>h\<close> or \<^verbatim>\<open>v\<close> and not the alias of any option
  of the table, \<^verbatim>\<open>parse\<close> throws \<open>UnknownAlias\<close>, with the state as it was when the
  token was reached. And \<^verbatim>\<open>get_id\<close> gives the id of the first option of the table
  that has the alias, whatever options after it have it too (the empty string when
  none has it).
\<close>

theorem C7_unknown_alias:
  assumes "reaches L opts argc argv w0 n i w" and "i < argc"
    and "argv_at argv i = Some (Some tok)" and "is_flag tok" and "strip_dashes tok = [c]"
    and "c \<noteq> CHR ''h''" and "c \<noteq> CHR ''v''"
    and "\<forall>x\<in>set opts. alias_char (ids x) \<noteq> c"
  shows "parse L opts argc argv w0 = Throw UnknownAlias w
    \<and> get_id tbl a =
        (case find (\<lambda>x. alias_char (ids x) = a) tbl of None \<Rightarrow> [] | Some x \<Rightarrow> id_name (ids x))"
proof -
  have "get_id opts c = []"
    using assms(8) by (rule get_id_none)
  then have "iteration L opts argv i w = Raised UnknownAlias w"
    using assms(3-7) by (simp add: iteration_unknown_alias)
  then have "scan L opts argc argv i w = Throw UnknownAlias w"
    using assms(2) by (subst scan.simps) simp
  with reaches_parse [OF assms(1,2)] show ?thesis
    by (simp add: get_id_find)
qed

theorem C7_witness:
  "parse demo_ops demo_opts 3 (main_argv [''prog'', ''--verbose'', ''-x'']) demo_world
     = Throw UnknownAlias (demo_world\<lparr>mem := demo_mem(0 := VBool True)\<rparr>)
   \<and> get_id (demo_opts @ twin_opts @ demo_opts) (CHR ''n'') = ''name''"
proof -
  let ?argv = "main_argv [''prog'', ''--verbose'', ''-x'']"
  let ?w = "demo_world\<lparr>mem := demo_mem(0 := VBool True)\<rparr>"
  have it: "iteration demo_ops demo_opts ?argv 1 demo_world = Continue 1 ?w"
    by (simp add: iteration_def main_argv_def argv_at_def strip_dashes_def demo_opts_def demo_world_def)
  have r: "reaches demo_ops demo_opts 3 ?argv demo_world (Suc 0) (1 + 1) ?w"
    by (rule reaches.step [OF reaches.start _ it]) simp
  have "argv_at ?argv (1 + 1) = Some (Some ''-x'')"
    by (simp add: main_argv_def argv_at_def)
  then show ?thesis
    using C7_unknown_alias [OF r _ _, of "''-x''" "CHR ''x''" "demo_opts @ twin_opts @ demo_opts" "CHR ''n''"]
    by (simp add: is_flag_def strip_dashes_def demo_opts_def twin_opts_def)
qed

text \<open>
  C10. A flag token whose text after the dashes is not empty, not one character, not
  \<^verbatim>\<open>help\<close> or \<^verbatim>\<open>version\<close> and not the id of any option is passed over: the body of
  the loop ends with the index and the state as they were, so no value token is consumed.
  Hence for the tokens \<^verbatim>\<open>[prog, flag, value]\<close> with such a flag and a value that does not
  start with a dash, \<^verbatim>\<open>parse\<close> throws \<open>ExpectedFlagPrefix\<close> at the value, with
  nothing changed.
\<close>

theorem C10_unknown_long_flag:
  assumes "is_flag flag" and "\<not> reserved (strip_dashes flag)"
    and "length (strip_dashes flag) \<noteq> 1" and "strip_dashes flag \<noteq> []"
    and "\<forall>x\<in>set opts. id_name (ids x) \<noteq> strip_dashes flag"
  shows "(argv_at argv i = Some (Some flag) \<longrightarrow> iteration L opts argv i w = Continue i w)
    \<and> (\<not> is_flag val \<longrightarrow>
         parse L opts 3 ([Some prog, Some flag, Some val] @ rest) w = Throw ExpectedFlagPrefix w)"
proof -
  let ?argv = "[Some prog, Some flag, Some val] @ rest"
  have pass: "iteration L opts av j w = Continue j w" if "argv_at av j = Some (Some flag)" for av j
    using that assms by (rule iteration_unknown_long)
  have a1: "argv_at ?argv 1 = Some (Some flag)" and a2: "argv_at ?argv 2 = Some (Some val)"
    by (simp_all add: argv_at_def)
  have second: "iteration L opts ?argv 2 w = Raised ExpectedFlagPrefix w" if "\<not> is_flag val"
    using that a2 by (simp add: iteration_def is_flag_def split: list.splits)
  have "scan L opts 3 ?argv 1 w = scan L opts 3 ?argv 2 w"
    using pass [OF a1] by (subst scan.simps) simp
  also have "\<dots> = Throw ExpectedFlagPrefix w" if "\<not> is_flag val"
    using second [OF that] by (subst scan.simps) simp
  finally have "\<not> is_flag val \<Longrightarrow> parse L opts 3 ?argv w = Throw ExpectedFlagPrefix w"
    by (simp add: parse_def)
  with pass show ?thesis by blast
qed

theorem C10_witness:
  "iteration demo_ops demo_opts (main_argv [''prog'', ''--unknown'', ''zz'']) 1 demo_world
     = Continue 1 demo_world
   \<and> parse demo_ops demo_opts 3 (main_argv [''prog'', ''--unknown'', ''zz'']) demo_world
     = Throw ExpectedFlagPrefix demo_world"
  using C10_unknown_long_flag [where flag = "''--unknown''" and opts = demo_opts and L = demo_ops
      and argv = "main_argv [''prog'', ''--unknown'', ''zz'']" and i = 1 and w = demo_world
      and val = "''zz''" and prog = "''prog''" and rest = "[None]"]
  by (simp add: is_flag_def reserved_def strip_dashes_def demo_opts_def main_argv_def argv_at_def)

subsection \<open>Value-bearing flags\<close>

lemma world_mem_same [simp]: "w\<lparr>mem := mem w\<rparr> = w"
  by simp

lemma bind_opts_single_null:
  assumes "opts = pre @ x # post"
    and "\<forall>y\<in>set pre \<union> set post. id_name (ids y) \<noteq> str"
    and "id_name (ids x) = str" and "takes_value (value_ref x)"
    and "argv_at argv (i + 1) = Some None"
  shows "bind_opts L argv str opts i m = Ok (i + 1, m)"
proof -
  have "bind_opts L argv str opts i m = bind_opts L argv str (x # post) i m"
    using assms(1,2) by (simp add: bind_opts_skip)
  also have "\<dots> = bind_opts L argv str post (i + 1) m"
    using assms(3,4,5) by (subst bind_opts_value) simp_all
  also have "\<dots> = Ok (i + 1, m)"
    using assms(2) by (simp add: bind_opts_no_match)
  finally show ?thesis .
qed

text \<open>
  C2, as stated, fails. With the array of \<^verbatim>\<open>main\<close> for the tokens \<^verbatim>\<open>prog --count\<close>,
  where \<^verbatim>\<open>--count\<close> is a declared optional integer, \<^verbatim>\<open>argv[++i]\<close> is the null pointer
  that ends the array, \<^verbatim>\<open>detail::parse\<close> does nothing on it, and \<^verbatim>\<open>parse\<close> returns
  normally with nothing changed: no error is raised.
\<close>

theorem C2_counterexample:
  "parse demo_ops demo_opts 2 (main_argv [''prog'', ''--count'']) demo_world = Ok demo_world"
  by (simp add: parse_def scan.simps iteration_def main_argv_def argv_at_def strip_dashes_def
      demo_opts_def demo_world_def)

text \<open>
  C2, amended. Let the array hold a null pointer at index \<^verbatim>\<open>argc\<close>, as the array of
  \<^verbatim>\<open>main\<close> does, and let the scan loop reach the final token, a flag that resolves to
  the long id of exactly one option of the table, one that takes a value. Then
  \<^verbatim>\<open>parse\<close> does not fail: the coercion is handed the null pointer and does nothing,
  and \<^verbatim>\<open>parse\<close> returns normally with the state as it was when the flag was reached.
\<close>

theorem C2_trailing_value_flag:
  assumes "reaches L opts argc argv w0 n i w" and "i + 1 = argc"
    and "argv_at argv i = Some (Some tok)" and "argv_at argv argc = Some None"
    and "is_flag tok" and "\<not> reserved (strip_dashes tok)" and "resolve opts tok \<noteq> []"
    and "opts = pre @ x # post"
    and "\<forall>y\<in>set pre \<union> set post. id_name (ids y) \<noteq> resolve opts tok"
    and "id_name (ids x) = resolve opts tok" and "takes_value (value_ref x)"
  shows "parse L opts argc argv w0 = Ok w"
proof -
  have "argv_at argv (i + 1) = Some None"
    using assms(2,4) by simp
  then have "bind_opts L argv (resolve opts tok) opts i (mem w) = Ok (i + 1, mem w)"
    using assms(8-11) by (simp add: bind_opts_single_null)
  then have "iteration L opts argv i w = Continue (i + 1) w"
    using assms(3,5,6,7) by (simp add: iteration_lookup)
  then have "scan L opts argc argv i w = scan L opts argc argv (i + 1 + 1) w"
    using assms(2) by (subst scan.simps) simp
  also have "\<dots> = Ok w"
    using assms(2) by (simp add: scan_past)
  finally show ?thesis
    using reaches_parse [OF assms(1)] assms(2) by simp
qed

theorem C2_witness:
  "parse demo_ops demo_opts 3 (main_argv [''prog'', ''--verbose'', ''-c'']) demo_world
     = Ok (demo_world\<lparr>mem := demo_mem(0 := VBool True)\<rparr>)"
proof -
  let ?argv = "main_argv [''prog'', ''--verbose'', ''-c'']"
  let ?w = "demo_world\<lparr>mem := demo_mem(0 := VBool True)\<rparr>"
  have it: "iteration demo_ops demo_opts ?argv 1 demo_world = Continue 1 ?w"
    by (simp add: iteration_def main_argv_def argv_at_def strip_dashes_def demo_opts_def demo_world_def)
  have r: "reaches demo_ops demo_opts 3 ?argv demo_world (Suc 0) (1 + 1) ?w"
    by (rule reaches.step [OF reaches.start _ it]) simp
  have a: "argv_at ?argv (1 + 1) = Some (Some ''-c'')" "argv_at ?argv 3 = Some None"
    by (simp_all add: main_argv_def argv_at_def)
  have f: "is_flag ''-c''" "\<not> reserved (strip_dashes ''-c'')"
    by (simp_all add: is_flag_def reserved_def strip_dashes_def)
  have res: "resolve demo_opts ''-c'' = ''count''"
    by (simp add: resolve_def strip_dashes_def demo_opts_def)
  have tbl: "demo_opts = take 2 demo_opts @ demo_opts ! 2 # []"
    "\<forall>y\<in>set (take 2 demo_opts) \<union> set []. id_name (ids y) \<noteq> resolve demo_opts ''-c''"
    "id_name (ids (demo_opts ! 2)) = resolve demo_opts ''-c''"
    "takes_value (value_ref (demo_opts ! 2))"
    unfolding res by (simp_all add: demo_opts_def)
  show ?thesis
    using C2_trailing_value_flag [OF r _ a(1) a(2) f _ tbl] by (simp add: res)
qed

text \<open>
  C1. The code at a table in which two options share the long id \<^verbatim>\<open>out\<close>, on the
  tokens \<^verbatim>\<open>prog --out x y\<close>: the inner loop has no \<^verbatim>\<open>break\<close>, so after the first option
  has taken \<^verbatim>\<open>x\<close> the second one takes the next token \<^verbatim>\<open>y\<close>. The flag has consumed two
  value tokens and the later option is changed, where the claim has the first option win
  and the later one left alone.
\<close>

theorem C1_twin_ids_both_bound:
  "parse demo_ops twin_opts 4 (main_argv [''prog'', ''--out'', ''x'', ''y'']) demo_world
     = Ok (demo_world\<lparr>mem := demo_mem(1 := VPlain (Str ''x''), 3 := VPlain (Str ''y''))\<rparr>)"
  by (simp add: parse_def scan.simps iteration_def main_argv_def argv_at_def strip_dashes_def
      twin_opts_def demo_world_def)

subsection \<open>Coercion\<close>

text \<open>
  C6. On a boolean binding, coercing a token stores true when the token is exactly
  \<^verbatim>\<open>true\<close> and false for every other token: the slot is true after the call if and
  only if the token equals \<^verbatim>\<open>true\<close>, and nothing else in the store changes. So
  \<^verbatim>\<open>true\<close> gives true, and \<^verbatim>\<open>false\<close>, \<^verbatim>\<open>1\<close>, the empty token and \<^verbatim>\<open>True\<close> with
  a capital give false.
\<close>

theorem C6_bool_coercion:
  "detail_parse L (Some tok) (RefBool a) m = Ok (m(a := VBool (tok = ''true'')))
   \<and> detail_parse L (Some ''true'') (RefBool a) m = Ok (m(a := VBool True))
   \<and> detail_parse L (Some ''false'') (RefBool a) m = Ok (m(a := VBool False))
   \<and> detail_parse L (Some ''1'') (RefBool a) m = Ok (m(a := VBool False))
   \<and> detail_parse L (Some []) (RefBool a) m = Ok (m(a := VBool False))
   \<and> detail_parse L (Some ''True'') (RefBool a) m = Ok (m(a := VBool False))"
  by simp





lemma plain_any_frame:
  "detail_parse L (Some X) (Ref T b) m =
     (case detail_parse L (Some X) (Ref T 0) (\<lambda>_. VPlain (zero_of L T)) of
        Throw e _ \<Rightarrow> Throw e m
      | Ok fr \<Rightarrow> Ok (m(b := fr 0)))"
  by (cases T) (simp_all split: sum.splits)

lemma plain_stores_plain:
  "detail_parse L (Some X) (Ref T b) m = Ok m' \<Longrightarrow> \<exists>v. m' b = VPlain v \<and> m' = m(b := VPlain v)"
  by (cases T) (auto split: sum.splits)

lemma detail_parse_frame:
  "target v \<noteq> a \<Longrightarrow> outcome_state (detail_parse L c v m) a = m a"
proof (cases c)
  case None
  then show ?thesis by simp
next
  case (Some X)
  assume t: "target v \<noteq> a"
  show ?thesis
  proof (cases v)
    case (RefBool b)
    with t Some show ?thesis by simp
  next
    case (Ref T b)
    with t Some show ?thesis by (cases T) (simp_all split: sum.splits)
  next
    case (RefOpt T b)
    with t Some show ?thesis by (simp split: outcome.splits val.splits)
  qed
qed

lemma bind_opts_frame:
  "\<forall>y\<in>set opts. id_name (ids y) = str \<longrightarrow> target (value_ref y) \<noteq> a \<Longrightarrow>
   snd (outcome_state (bind_opts L argv str opts i m)) a = m a"
proof (induction opts arbitrary: i m)
  case Nil
  show ?case by simp
next
  case (Cons x xs)
  show ?case
  proof (cases "id_name (ids x) = str")
    case False
    with Cons show ?thesis by simp
  next
    case True
    with Cons.prems have t: "target (value_ref x) \<noteq> a" by simp
    from Cons have IH: "snd (outcome_state (bind_opts L argv str xs j m1)) a = m1 a" for j m1
      by simp
    show ?thesis
    proof (cases "takes_value (value_ref x)")
      case False
      then obtain b where "value_ref x = RefBool b" by (cases "value_ref x") simp_all
      with True t IH show ?thesis by simp
    next
      case tv: True
      show ?thesis
      proof (cases "argv_at argv (i + 1)")
        case None
        with True tv show ?thesis by (simp add: bind_opts_value del: bind_opts.simps)
      next
        case (Some c)
        show ?thesis
        proof (cases "detail_parse L c (value_ref x) m")
          case (Ok m1)
          with detail_parse_frame [OF t, of L c m] have "m1 a = m a" by simp
          with True tv Some Ok IH show ?thesis by (simp add: bind_opts_value del: bind_opts.simps)
        next
          case (Throw e m1)
          with detail_parse_frame [OF t, of L c m] have "m1 a = m a" by simp
          with True tv Some Throw show ?thesis by (simp add: bind_opts_value del: bind_opts.simps)
        qed
      qed
    qed
  qed
qed

lemma iteration_frame:
  assumes "argv_at argv i = Some (Some tok)"
    and "\<forall>y\<in>set opts. id_name (ids y) = resolve opts tok \<longrightarrow> target (value_ref y) \<noteq> a"
  shows "mem (state_of (iteration L opts argv i w)) a = mem w a"
proof -
  have "snd (outcome_state (bind_opts L argv (resolve opts tok) opts i (mem w))) a = mem w a"
    using assms(2) by (rule bind_opts_frame)
  then show ?thesis
    using assms(1)
    by (auto simp add: iteration_def Let_def resolve_def print_help_def
        split: outcome.splits prod.splits)
qed

lemma optional_of_plain:
  "(case detail_parse L (Some X) (Ref T b) m0 of
      Ok m1 \<Rightarrow> \<exists>v. m1 = m0(b := VPlain v)
                 \<and> detail_parse L (Some X) (RefOpt T a) m = Ok (m(a := VOpt (Some v)))
    | Throw e m1 \<Rightarrow> detail_parse L (Some X) (RefOpt T a) m = Throw e m)"
  by (cases T) (auto split: sum.splits)

lemma iteration_bind_first:
  assumes "argv_at argv i = Some (Some flag)" and "is_flag flag"
    and "\<not> reserved (strip_dashes flag)" and "resolve opts flag \<noteq> []"
    and "opts = pre @ x # post"
    and "\<forall>y\<in>set pre. id_name (ids y) \<noteq> resolve opts flag"
    and "id_name (ids x) = resolve opts flag" and "takes_value (value_ref x)"
    and "argv_at argv (i + 1) = Some c"
  shows "iteration L opts argv i w =
    (case detail_parse L c (value_ref x) (mem w) of
       Throw e m' \<Rightarrow> Raised e (w\<lparr>mem := m'\<rparr>)
     | Ok m' \<Rightarrow>
         (case bind_opts L argv (resolve opts flag) post (i + 1) m' of
            Throw e (i', m'') \<Rightarrow> Raised e (w\<lparr>mem := m''\<rparr>)
          | Ok (i', m'') \<Rightarrow> Continue i' (w\<lparr>mem := m''\<rparr>)))"
proof -
  have "bind_opts L argv (resolve opts flag) opts i (mem w)
      = bind_opts L argv (resolve opts flag) (x # post) i (mem w)"
    using assms(5,6) by (simp add: bind_opts_skip)
  also have "\<dots> = (case detail_parse L c (value_ref x) (mem w) of
            Throw e m' \<Rightarrow> Throw e (i + 1, m')
          | Ok m' \<Rightarrow> bind_opts L argv (resolve opts flag) post (i + 1) m')"
    using assms(7,8,9) by (subst bind_opts_value) simp_all
  finally show ?thesis
    using assms(1-4) by (simp add: iteration_lookup split: outcome.splits)
qed






lemma demo_reach_flag:
  "reaches demo_ops demo_opts argc (main_argv (''prog'' # ''--verbose'' # rest)) demo_world
     (Suc 0) (1 + 1) (demo_world\<lparr>mem := demo_mem(0 := VBool True)\<rparr>)"
  if "1 < argc"
proof -
  have "iteration demo_ops demo_opts (main_argv (''prog'' # ''--verbose'' # rest)) 1 demo_world
      = Continue 1 (demo_world\<lparr>mem := demo_mem(0 := VBool True)\<rparr>)"
    by (simp add: iteration_def main_argv_def argv_at_def strip_dashes_def demo_opts_def demo_world_def)
  with that show ?thesis
    by (rule reaches.step [OF reaches.start])
qed



text \<open>
  C4. Coercing a token into an optional binding of type \<open>T\<close> runs the plain coercion
  for \<open>T\<close>: where the plain coercion stores the value \<open>v\<close> in its slot, the optional
  coercion stores present \<open>v\<close> in the optional slot (and nothing else); where the plain
  coercion throws, the optional one throws the same error and stores nothing. In the scan
  loop, a run of the body at a token that resolves to no option bound to the address
  \<open>a\<close> leaves the slot at \<open>a\<close> as it was, so an optional that the caller left empty
  stays empty until a matching flag is processed; and the run at a flag that matches
  exactly one option, an optional bound to \<open>a\<close>, followed by a token that the plain
  coercion turns into \<open>v\<close>, makes the slot present \<open>v\<close> and consumes that one token.
\<close>

theorem C4_optional_binding:
  "(case detail_parse L (Some X) (Ref T b) m0 of
      Ok m1 \<Rightarrow> \<exists>v. m1 = m0(b := VPlain v)
                 \<and> detail_parse L (Some X) (RefOpt T a) m = Ok (m(a := VOpt (Some v)))
    | Throw e m1 \<Rightarrow> detail_parse L (Some X) (RefOpt T a) m = Throw e m)
   \<and> (argv_at argv j = Some (Some tok)
        \<and> (\<forall>y\<in>set opts. id_name (ids y) = resolve opts tok \<longrightarrow> target (value_ref y) \<noteq> a)
        \<longrightarrow> mem (state_of (iteration L opts argv j w)) a = mem w a)
   \<and> (argv_at argv i = Some (Some flag) \<and> is_flag flag
        \<and> \<not> reserved (strip_dashes flag) \<and> resolve opts flag \<noteq> []
        \<and> opts = pre @ x # post
        \<and> (\<forall>y\<in>set pre \<union> set post. id_name (ids y) \<noteq> resolve opts flag)
        \<and> id_name (ids x) = resolve opts flag \<and> value_ref x = RefOpt T a
        \<and> argv_at argv (i + 1) = Some (Some X)
        \<and> detail_parse L (Some X) (Ref T b) m0 = Ok (m0(b := VPlain v))
        \<longrightarrow> iteration L opts argv i w = Continue (i + 1) (w\<lparr>mem := (mem w)(a := VOpt (Some v))\<rparr>))"
proof -
  have "iteration L opts argv i w = Continue (i + 1) (w\<lparr>mem := (mem w)(a := VOpt (Some v))\<rparr>)"
    if f: "argv_at argv i = Some (Some flag)" "is_flag flag"
        "\<not> reserved (strip_dashes flag)" "resolve opts flag \<noteq> []"
      and t: "opts = pre @ x # post"
      and others: "\<forall>y\<in>set pre \<union> set post. id_name (ids y) \<noteq> resolve opts flag"
      and xid: "id_name (ids x) = resolve opts flag" and xv: "value_ref x = RefOpt T a"
      and nxt: "argv_at argv (i + 1) = Some (Some X)"
      and plain: "detail_parse L (Some X) (Ref T b) m0 = Ok (m0(b := VPlain v))"
  proof -
    from optional_of_plain [where L = L and X = X and T = T and b = b and ?m0.0 = m0 and a = a
        and m = "mem w"] plain
    obtain v' where v': "m0(b := VPlain v) = m0(b := VPlain v')"
      and o: "detail_parse L (Some X) (RefOpt T a) (mem w) = Ok ((mem w)(a := VOpt (Some v')))"
      by auto
    from v' have "(m0(b := VPlain v)) b = (m0(b := VPlain v')) b" by simp
    then have "v' = v" by simp
    from others have pre: "\<forall>y\<in>set pre. id_name (ids y) \<noteq> resolve opts flag"
      and post: "\<forall>y\<in>set post. id_name (ids y) \<noteq> resolve opts flag"
      by auto
    from xv have tv: "takes_value (value_ref x)" by simp
    show ?thesis
      using iteration_bind_first [OF f t pre xid tv nxt, of L w] o xv \<open>v' = v\<close>
      by (simp add: bind_opts_no_match [OF post])
  qed
  with optional_of_plain [where L = L and X = X and T = T and b = b and ?m0.0 = m0 and a = a
      and m = m]
    iteration_frame [where argv = argv and i = j and tok = tok and opts = opts and a = a
      and L = L and w = w]
  show ?thesis by blast
qed

theorem C4_witness:
  "detail_parse demo_ops (Some ''42'') (Ref TInt32 7) demo_mem = Ok (demo_mem(7 := VPlain (I32 42)))
   \<and> detail_parse demo_ops (Some ''42'') (RefOpt TInt32 2) demo_mem = Ok (demo_mem(2 := VOpt (Some (I32 42))))
   \<and> mem (state_of (iteration demo_ops demo_opts (main_argv [''prog'', ''--count'', ''42'', ''-n'', ''me'']) 3 demo_world)) 2
       = VOpt None
   \<and> iteration demo_ops demo_opts (main_argv [''prog'', ''--count'', ''42'', ''-n'', ''me'']) 1 demo_world
       = Continue 2 (demo_world\<lparr>mem := demo_mem(2 := VOpt (Some (I32 42)))\<rparr>)"
proof -
  let ?argv = "main_argv [''prog'', ''--count'', ''42'', ''-n'', ''me'']"
  have s: "stol ''42'' = Inr 42"
    by (simp add: stol_def isspace_def isdigit_def decimal_value_def digit_val_def)
  have plain: "detail_parse demo_ops (Some ''42'') (Ref TInt32 7) demo_mem = Ok (demo_mem(7 := VPlain (I32 42)))"
    by (simp add: s)
  have a: "argv_at ?argv 1 = Some (Some ''--count'')" "argv_at ?argv (1 + 1) = Some (Some ''42'')"
    "argv_at ?argv 3 = Some (Some ''-n'')"
    by (simp_all add: main_argv_def argv_at_def)
  have f: "is_flag ''--count''" "\<not> reserved (strip_dashes ''--count'')"
    by (simp_all add: is_flag_def reserved_def strip_dashes_def)
  have res: "resolve demo_opts ''--count'' = ''count''" "resolve demo_opts ''-n'' = ''name''"
    by (simp_all add: resolve_def strip_dashes_def demo_opts_def)
  have tbl: "demo_opts = take 2 demo_opts @ demo_opts ! 2 # []"
    "\<forall>y\<in>set (take 2 demo_opts) \<union> set []. id_name (ids y) \<noteq> resolve demo_opts ''--count''"
    "id_name (ids (demo_opts ! 2)) = resolve demo_opts ''--count''"
    "value_ref (demo_opts ! 2) = RefOpt TInt32 2"
    "resolve demo_opts ''--count'' \<noteq> []"
    "\<forall>y\<in>set demo_opts. id_name (ids y) = resolve demo_opts ''-n'' \<longrightarrow> target (value_ref y) \<noteq> 2"
    unfolding res by (simp_all add: demo_opts_def)
  have w: "mem demo_world = demo_mem" "demo_mem 2 = VOpt None"
    by (simp_all add: demo_world_def demo_mem_def)
  from C4_optional_binding [where L = demo_ops and X = "''42''" and T = TInt32 and b = 7
      and ?m0.0 = demo_mem and a = 2 and m = demo_mem and v = "I32 42"
      and argv = ?argv and j = 3 and tok = "''-n''" and opts = demo_opts and w = demo_world
      and i = 1 and flag = "''--count''" and pre = "take 2 demo_opts" and x = "demo_opts ! 2"
      and post = "[]"]
    plain a f tbl
  have "detail_parse demo_ops (Some ''42'') (RefOpt TInt32 2) demo_mem = Ok (demo_mem(2 := VOpt (Some (I32 42))))
      \<and> mem (state_of (iteration demo_ops demo_opts ?argv 3 demo_world)) 2 = mem demo_world 2
      \<and> iteration demo_ops demo_opts ?argv 1 demo_world
          = Continue (1 + 1) (demo_world\<lparr>mem := (mem demo_world)(2 := VOpt (Some (I32 42)))\<rparr>)"
    by (auto dest: fun_upd_eqD)
  with plain w show ?thesis by simp
qed

subsection \<open>Help\<close>

lemma no_help_between_refl: "no_help_between w w"
  unfolding no_help_between_def by (auto intro: exI [of _ 0])

lemma no_help_between_trans:
  assumes "no_help_between w w1" and "no_help_between w1 w2"
  shows "no_help_between w w2"
proof -
  let ?v = "''Version: '' @ version (ctx w) @ nl"
  from assms(1) obtain k where k: "cout w1 = cout w @ concat (replicate k ?v)"
    and v: "version (ctx w1) = version (ctx w)" and p: "printed_help (ctx w1) = printed_help (ctx w)"
    unfolding no_help_between_def by auto
  from assms(2) v obtain l where l: "cout w2 = cout w1 @ concat (replicate l ?v)"
    and v2: "version (ctx w2) = version (ctx w)" and p2: "printed_help (ctx w2) = printed_help (ctx w1)"
    unfolding no_help_between_def by auto
  have "cout w2 = cout w @ concat (replicate (k + l) ?v)"
    using k l by (simp add: replicate_add)
  with v2 p p2 show ?thesis
    unfolding no_help_between_def by auto
qed

lemma argv_at_in_tail:
  assumes "argv_at argv i = Some c" and "1 \<le> i"
  shows "c \<in> set (drop 1 argv)"
proof -
  from assms have i: "nat i < length argv" and c: "c = argv ! nat i"
    by (auto simp add: argv_at_def split: if_splits)
  from assms(2) have "nat i = 1 + (nat i - 1)" by simp
  with i c have "c = drop 1 argv ! (nat i - 1)" "nat i - 1 < length (drop 1 argv)"
    using assms(2) by (simp_all add: nth_drop)
  then show ?thesis by (metis nth_mem)
qed

lemma iteration_no_help:
  assumes "\<forall>tok. argv_at argv i = Some (Some tok) \<longrightarrow> \<not> asks_help tok"
  shows "no_help_between w (state_of (iteration L opts argv i w))"
proof -
  have v: "no_help_between w (w\<lparr>cout := cout w @ ''Version: '' @ version (ctx w) @ nl,
      ctx := (ctx w)\<lparr>printed_version := True\<rparr>\<rparr>)"
    unfolding no_help_between_def by (auto intro: exI [of _ 1])
  have m: "no_help_between w (w\<lparr>mem := m'\<rparr>)" for m'
    unfolding no_help_between_def by (auto intro: exI [of _ 0])
  show ?thesis
    using assms v m no_help_between_refl [of w]
    by (auto simp add: iteration_def Let_def asks_help_def is_flag_def
        split: option.splits list.splits outcome.splits prod.splits)
qed

lemma scan_no_help:
  assumes "\<forall>tok. Some tok \<in> set (drop 1 argv) \<longrightarrow> \<not> asks_help tok" and "1 \<le> i"
  shows "no_help_between w (outcome_state (scan L opts argc argv i w))"
  using assms
proof (induction L opts argc argv i w rule: scan.induct)
  case (1 L opts argc argv i w)
  have "\<forall>tok. argv_at argv i = Some (Some tok) \<longrightarrow> \<not> asks_help tok"
    using "1.prems" argv_at_in_tail by blast
  then have it: "no_help_between w (state_of (iteration L opts argv i w))"
    by (rule iteration_no_help)
  show ?case
  proof (cases "i < argc")
    case False
    then show ?thesis
      by (subst scan.simps) (simp add: no_help_between_refl)
  next
    case True
    show ?thesis
    proof (cases "iteration L opts argv i w")
      case (Continue i' w1)
      then have "i \<le> i'" by (rule iteration_index)
      with "1.prems" have "1 \<le> i' + 1" by simp
      with "1.IH" [OF True Continue "1.prems"(1)]
      have "no_help_between w1 (outcome_state (scan L opts argc argv (i' + 1) w1))" .
      moreover from it Continue have "no_help_between w w1" by simp
      ultimately have "no_help_between w (outcome_state (scan L opts argc argv (i' + 1) w1))"
        by (rule no_help_between_trans [rotated])
      with True Continue show ?thesis
        by (subst scan.simps) simp
    next
      case (Break w1)
      with it True show ?thesis by (subst scan.simps) simp
    next
      case (Raised e w1)
      with it True show ?thesis by (subst scan.simps) simp
    qed
  qed
qed

lemma print_help_grows:
  "\<exists>txt. txt \<noteq> [] \<and> cout (print_help L w opts) = cout w @ txt"
  by (simp add: print_help_def nl_def)

text \<open>
  C8. With \<^verbatim>\<open>argc\<close> equal to 1, \<^verbatim>\<open>parse\<close> returns the state after \<^verbatim>\<open>help\<close> when
  \<^verbatim>\<open>print_help_when_no_options\<close> is set and the unchanged state otherwise; \<^verbatim>\<open>help\<close>
  sets \<^verbatim>\<open>printed_help\<close>, adds a text that is not empty to the output and leaves the
  storage alone. So output appears if and only if the flag is set. No other path writes
  help unasked: with \<^verbatim>\<open>argc\<close> other than 1 and no token after the program name that
  asks for help, \<^verbatim>\<open>printed_help\<close> is after the call what it was before, however the
  call ends, and the output has grown by version lines only.
\<close>

theorem C8_program_name_only:
  "parse L opts 1 argv w = Ok (if print_help_when_no_options (ctx w) then print_help L w opts else w)
   \<and> printed_help (ctx (print_help L w opts))
   \<and> mem (print_help L w opts) = mem w
   \<and> (cout (outcome_state (parse L opts 1 argv w)) \<noteq> cout w \<longleftrightarrow> print_help_when_no_options (ctx w))
   \<and> (argc \<noteq> 1 \<and> (\<forall>tok. Some tok \<in> set (drop 1 argv) \<longrightarrow> \<not> asks_help tok)
        \<longrightarrow> no_help_between w (outcome_state (parse L opts argc argv w)))"
proof -
  have one: "parse L opts 1 argv w
      = Ok (if print_help_when_no_options (ctx w) then print_help L w opts else w)"
    by (simp add: parse_def)
  have flag: "printed_help (ctx (print_help L w opts))" and store: "mem (print_help L w opts) = mem w"
    by (simp_all add: print_help_def)
  from print_help_grows [of L w opts]
  have out: "cout (outcome_state (parse L opts 1 argv w)) \<noteq> cout w \<longleftrightarrow> print_help_when_no_options (ctx w)"
    by (auto simp add: one)
  have only: "no_help_between w (outcome_state (parse L opts argc argv w))"
    if "argc \<noteq> 1" and "\<forall>tok. Some tok \<in> set (drop 1 argv) \<longrightarrow> \<not> asks_help tok"
    using that scan_no_help [of argv 1 w L opts argc] by (simp add: parse_def)
  from one flag store out only show ?thesis by blast
qed

theorem C8_witness:
  "parse demo_ops demo_opts 1 (main_argv [''prog'']) demo_world = Ok demo_world
   \<and> cout (outcome_state (parse demo_ops demo_opts 1 (main_argv [''prog'']) demo_world)) = cout demo_world
   \<and> parse demo_ops demo_opts 1 (main_argv [''prog''])
         (demo_world\<lparr>ctx := (ctx demo_world)\<lparr>print_help_when_no_options := True\<rparr>\<rparr>)
       = Ok (print_help demo_ops (demo_world\<lparr>ctx := (ctx demo_world)\<lparr>print_help_when_no_options := True\<rparr>\<rparr>) demo_opts)
   \<and> no_help_between demo_world
       (outcome_state (parse demo_ops demo_opts 3 (main_argv [''prog'', ''-v'', ''--verbose'']) demo_world))"
proof -
  let ?on = "demo_world\<lparr>ctx := (ctx demo_world)\<lparr>print_help_when_no_options := True\<rparr>\<rparr>"
  have h: "\<forall>tok. Some tok \<in> set (drop 1 (main_argv [''prog'', ''-v'', ''--verbose''])) \<longrightarrow> \<not> asks_help tok"
    by (auto simp add: main_argv_def asks_help_def strip_dashes_def)
  have p: "\<not> print_help_when_no_options (ctx demo_world)" "print_help_when_no_options (ctx ?on)"
    by (simp_all add: demo_world_def)
  from C8_program_name_only [of demo_ops demo_opts "main_argv [''prog'']" demo_world 3] p(1)
  have a: "parse demo_ops demo_opts 1 (main_argv [''prog'']) demo_world = Ok demo_world
    \<and> cout (outcome_state (parse demo_ops demo_opts 1 (main_argv [''prog'']) demo_world)) = cout demo_world"
    by simp
  from C8_program_name_only [of demo_ops demo_opts "main_argv [''prog'']" ?on 3] p(2)
  have b: "parse demo_ops demo_opts 1 (main_argv [''prog'']) ?on = Ok (print_help demo_ops ?on demo_opts)"
    by simp
  from C8_program_name_only [of demo_ops demo_opts "main_argv [''prog'', ''-v'', ''--verbose'']" demo_world 3] h
  have "no_help_between demo_world
       (outcome_state (parse demo_ops demo_opts 3 (main_argv [''prog'', ''-v'', ''--verbose'']) demo_world))"
    by simp
  with a b show ?thesis by blast
qed

subsection \<open>Termination\<close>

lemma reaches_count:
  "reaches L opts argc argv w0 n i w \<Longrightarrow> 0 < n \<Longrightarrow> int n < argc"
proof (induction rule: reaches.induct)
  case start
  then show ?case by simp
next
  case (step n i w i' w')
  from step.hyps(1) have "int n < i" by (rule reaches_index)
  with step.hyps(2) show ?case by simp
qed

lemma reaches_stops:
  "reaches L opts argc argv w0 n i w \<Longrightarrow>
   \<exists>n' i' w'. reaches L opts argc argv w0 n' i' w' \<and> stops L opts argc argv i' w'"
proof (induction "nat (argc - i)" arbitrary: n i w rule: less_induct)
  case less
  show ?case
  proof (cases "stops L opts argc argv i w")
    case True
    with less.prems show ?thesis by blast
  next
    case False
    then obtain i' w1 where lt: "i < argc" and it: "iteration L opts argv i w = Continue i' w1"
      by (auto simp add: stops_def split: if_splits flow.splits)
    from it have "i \<le> i'" by (rule iteration_index)
    with lt have "nat (argc - (i' + 1)) < nat (argc - i)" by simp
    moreover have "reaches L opts argc argv w0 (Suc n) (i' + 1) w1"
      using less.prems lt it by (rule reaches.step)
    ultimately show ?thesis by (rule less.hyps)
  qed
qed

text \<open>
  C9. The scan loop terminates, for every table, \<^verbatim>\<open>argc\<close> and array: its run from the
  start of \<^verbatim>\<open>parse\<close> comes to a head at which it stops, and the result of
  \<^verbatim>\<open>parse\<close> is the result at that head. The number of runs of the body is bounded by
  \<^verbatim>\<open>argc\<close>: a head reached after \<open>n\<close> completed runs has an index above \<open>n\<close>, so a
  further run starts only while \<open>n + 1 < argc\<close>. And the index strictly increases from one
  head to the next, also when the body has consumed value tokens.
\<close>

theorem C9_scan_terminates:
  "(\<exists>n i w. reaches L opts argc argv w0 n i w \<and> stops L opts argc argv i w
       \<and> scan L opts argc argv 1 w0 = scan L opts argc argv i w
       \<and> int n + (if i < argc then 1 else 0) \<le> max 0 (argc - 1))
   \<and> (reaches L opts argc argv w0 k j v \<and> j < argc \<longrightarrow> int k + 1 < argc)
   \<and> (iteration L opts argv j v = Continue j' v' \<longrightarrow> j < j' + 1)"
proof -
  from reaches_stops [OF reaches.start]
  obtain n i w where r: "reaches L opts argc argv w0 n i w" and s: "stops L opts argc argv i w"
    by blast
  from r have idx: "int n < i" by (rule reaches_index)
  have "int n + (if i < argc then 1 else 0) \<le> max 0 (argc - 1)"
  proof (cases "i < argc")
    case True
    with idx show ?thesis by simp
  next
    case False
    show ?thesis
    proof (cases "0 < n")
      case True
      with reaches_count [OF r] False show ?thesis by simp
    next
      case n0: False
      with False show ?thesis by simp
    qed
  qed
  with r s reaches_scan [OF r]
  have first: "\<exists>n i w. reaches L opts argc argv w0 n i w \<and> stops L opts argc argv i w
       \<and> scan L opts argc argv 1 w0 = scan L opts argc argv i w
       \<and> int n + (if i < argc then 1 else 0) \<le> max 0 (argc - 1)"
    by blast
  have second: "int k + 1 < argc" if "reaches L opts argc argv w0 k j v" and "j < argc"
    using reaches_index [OF that(1)] that(2) by simp
  have third: "j < j' + 1" if "iteration L opts argv j v = Continue j' v'"
    using iteration_index [OF that] by simp
  from first second third show ?thesis by blast
qed

theorem C9_witness:
  "reaches demo_ops demo_opts 5 (main_argv [''prog'', ''--verbose'', ''-n'', ''me'', ''-c'']) demo_world
      (Suc 0) 2 (demo_world\<lparr>mem := demo_mem(0 := VBool True)\<rparr>)
   \<and> int (Suc 0) + 1 < 5
   \<and> iteration demo_ops demo_opts (main_argv [''prog'', ''--verbose'', ''-n'', ''me'', ''-c'']) 2
         (demo_world\<lparr>mem := demo_mem(0 := VBool True)\<rparr>)
       = Continue 3 (demo_world\<lparr>mem := demo_mem(0 := VBool True, 1 := VPlain (Str ''me''))\<rparr>)
   \<and> (2::int) < 3 + 1
   \<and> (\<exists>n i w. reaches demo_ops demo_opts 5 (main_argv [''prog'', ''--verbose'', ''-n'', ''me'', ''-c'']) demo_world n i w
       \<and> stops demo_ops demo_opts 5 (main_argv [''prog'', ''--verbose'', ''-n'', ''me'', ''-c'']) i w
       \<and> int n + (if i < 5 then 1 else 0) \<le> max 0 (5 - 1))"
proof -
  let ?argv = "main_argv [''prog'', ''--verbose'', ''-n'', ''me'', ''-c'']"
  let ?w1 = "demo_world\<lparr>mem := demo_mem(0 := VBool True)\<rparr>"
  let ?w2 = "demo_world\<lparr>mem := demo_mem(0 := VBool True, 1 := VPlain (Str ''me''))\<rparr>"
  have r: "reaches demo_ops demo_opts 5 ?argv demo_world (Suc 0) 2 ?w1"
    using demo_reach_flag [of 5 "[''-n'', ''me'', ''-c'']"] by simp
  have it: "iteration demo_ops demo_opts ?argv 2 ?w1 = Continue 3 ?w2"
    by (simp add: iteration_def main_argv_def argv_at_def strip_dashes_def demo_opts_def demo_world_def)
  note C9 = C9_scan_terminates [of demo_ops demo_opts 5 ?argv demo_world "Suc 0" 2 ?w1 3 ?w2]
  from C9 have ex: "\<exists>n i w. reaches demo_ops demo_opts 5 ?argv demo_world n i w
       \<and> stops demo_ops demo_opts 5 ?argv i w
       \<and> int n + (if i < 5 then 1 else 0) \<le> max 0 (5 - 1)"
    by blast
  from C9 r have bound: "int (Suc 0) + 1 < 5"
    by simp
  from C9 it have incr: "(2::int) < 3 + 1"
    by blast
  from r bound it incr ex show ?thesis
    by blast
qed

end
